theory Spec2Isabelle
  imports Main "HOL-Library.Char_ord"
begin

section \<open>Values shared with the board module\<close>

text \<open>
  Exceptions of the Python program, as values. \<open>TimeoutUnknown\<close> is the
  \<open>Exception("unknown")\<close> raised by \<open>signal_handler\<close>; all of them are
  subclasses of Python's \<open>Exception\<close>.
\<close>

datatype error = ValueError | IndexError | AssertionError | TypeError | TimeoutUnknown

text \<open>
  Modelled from the spec: the constant \<open>MAXSIZE\<close> is imported from the board module,
  which is not part of the sources at hand; the specification gives the supported
  board-size ceiling as 25, and \<open>format_point\<close> asserts \<open>MAXSIZE <= 25\<close>.
\<close>

definition MAXSIZE :: int where
  "MAXSIZE = 25"

text \<open>
  A coordinate as \<open>format_point\<close> and \<open>move_to_coord\<close> see it: the sentinel
  \<open>PASS\<close> or a pair \<open>(row, col)\<close> of Python integers.
\<close>

datatype coord = PASS | RC int int

section \<open>Strings of the notation codec\<close>

definition lower_char :: "char \<Rightarrow> char" where
  "lower_char c =
     (if CHR ''A'' \<le> c \<and> c \<le> CHR ''Z'' then char_of (of_char c + (32::nat)) else c)"

definition lower :: "string \<Rightarrow> string" where
  "lower s = map lower_char s"

definition digit_char :: "nat \<Rightarrow> char" where
  "digit_char d = char_of (48 + d)"

text \<open>Python's \<open>str\<close> on an integer: decimal digits, a minus sign when negative.\<close>

fun str_nat :: "nat \<Rightarrow> string" where
  "str_nat n = (if n < 10 then [digit_char n] else str_nat (n div 10) @ [digit_char (n mod 10)])"

declare str_nat.simps [simp del]

definition str_int :: "int \<Rightarrow> string" where
  "str_int i = (if i < 0 then CHR ''-'' # str_nat (nat (- i)) else str_nat (nat i))"

text \<open>
  Python's \<open>int\<close> on a string, base 10, restricted to ASCII: surrounding white space is
  dropped, one sign is allowed, and the digits may be grouped by single underscores.
  \<open>None\<close> stands for the \<open>ValueError\<close> of an invalid literal.
\<close>

definition is_digit :: "char \<Rightarrow> bool" where
  "is_digit c \<longleftrightarrow> CHR ''0'' \<le> c \<and> c \<le> CHR ''9''"

definition digit_val :: "char \<Rightarrow> nat" where
  "digit_val c = of_char c - 48"

definition is_space :: "char \<Rightarrow> bool" where
  "is_space c \<longleftrightarrow> c \<in> {CHR '' '', CHR 0x09, CHR 0x0A, CHR 0x0B, CHR 0x0C, CHR 0x0D}"

definition strip :: "string \<Rightarrow> string" where
  "strip s = rev (dropWhile is_space (rev (dropWhile is_space s)))"

text \<open>
  The digits of a literal, left to right; the flag says whether the previous character
  was a digit, which is where an underscore may stand.
\<close>

fun digits_value :: "bool \<Rightarrow> nat \<Rightarrow> string \<Rightarrow> nat option" where
  "digits_value prev acc [] = (if prev then Some acc else None)"
| "digits_value prev acc (c # cs) =
     (if is_digit c then digits_value True (10 * acc + digit_val c) cs
      else if c = CHR ''_'' \<and> prev then digits_value False acc cs
      else None)"

definition py_int :: "string \<Rightarrow> int option" where
  "py_int s =
     (case strip s of
        [] \<Rightarrow> None
      | c # cs \<Rightarrow>
          if c = CHR ''-'' then map_option (\<lambda>n. - int n) (digits_value False 0 cs)
          else if c = CHR ''+'' then map_option int (digits_value False 0 cs)
          else map_option int (digits_value False 0 (c # cs)))"

section \<open>The notation codec\<close>

definition column_letters :: string where
  "column_letters = ''ABCDEFGHJKLMNOPQRSTUVWXYZ''"

text \<open>
  Python indexing of a string: a negative index counts from the end, and an index out
  of range raises \<open>IndexError\<close>.
\<close>

definition py_index :: "string \<Rightarrow> int \<Rightarrow> error + char" where
  "py_index s i =
     (if 0 \<le> i \<and> i < int (length s) then Inr (s ! nat i)
      else if - int (length s) \<le> i \<and> i < 0 then Inr (s ! nat (int (length s) + i))
      else Inl IndexError)"

text \<open>A point is an index into the board's flat array; \<open>None\<close> is the sentinel \<open>PASS\<close>.\<close>

definition point_to_coord :: "nat option \<Rightarrow> int \<Rightarrow> coord" where
  "point_to_coord point boardsize =
     (case point of
        None \<Rightarrow> PASS
      | Some p \<Rightarrow> let NS = boardsize + 1 in RC (int p div NS) (int p mod NS))"

definition format_point :: "coord \<Rightarrow> error + string" where
  "format_point move =
     (if \<not> MAXSIZE \<le> 25 then Inl AssertionError
      else case move of
        PASS \<Rightarrow> Inr ''PASS''
      | RC row col \<Rightarrow>
          if \<not> (0 \<le> row \<and> row < MAXSIZE) \<or> \<not> (0 \<le> col \<and> col < MAXSIZE) then Inl ValueError
          else (case py_index column_letters (col - 1) of
                  Inl e \<Rightarrow> Inl e
                | Inr letter \<Rightarrow> Inr (letter # str_int row)))"

definition move_to_coord :: "string \<Rightarrow> int \<Rightarrow> error + coord" where
  "move_to_coord point_str board_size =
     (if \<not> (2 \<le> board_size \<and> board_size \<le> MAXSIZE) then Inl ValueError
      else let s = lower point_str in
        if s = ''pass'' then Inr PASS
        else case s of
          [] \<Rightarrow> Inl ValueError
        | col_c # rest \<Rightarrow>
            if \<not> (CHR ''a'' \<le> col_c \<and> col_c \<le> CHR ''z'') \<or> col_c = CHR ''i'' then Inl ValueError
            else let col0 = int (of_char col_c) - int (of_char (CHR ''a''));
                     col = (if col_c < CHR ''i'' then col0 + 1 else col0)
                 in case py_int rest of
                      None \<Rightarrow> Inl ValueError
                    | Some row \<Rightarrow>
                        if row < 1 then Inl ValueError
                        else if \<not> (col \<le> board_size \<and> row \<le> board_size) then Inl ValueError
                        else Inr (RC row col))"

section \<open>The board, as the solver sees it\<close>

text \<open>
  Modelled from the spec: the colour codes and \<open>GoBoardUtil.opponent\<close> come from the
  board module, which is not part of the sources at hand. A cell is \<open>EMPTY\<close>,
  \<open>BLACK\<close>, \<open>WHITE\<close> or \<open>BORDER\<close>; the opponent of one player is the other
  (\<open>WHITE + BLACK - color\<close> on the integer codes 0, 1, 2, 3).
\<close>

datatype color = EMPTY | BLACK | WHITE | BORDER

fun opponent :: "color \<Rightarrow> color" where
  "opponent BLACK = WHITE"
| "opponent WHITE = BLACK"
| "opponent EMPTY = BORDER"
| "opponent BORDER = EMPTY"

text \<open>
  The fields of the board object that \<open>boolean_negamax_tt\<close> reads and writes:
  \<open>board.size\<close> (here \<open>bsize\<close>), the flat array \<open>board.board\<close> (here \<open>stones\<close>),
  \<open>board.current_player\<close>, \<open>board.last_move\<close> and \<open>board.last2_move\<close>.
\<close>

record go_board =
  bsize :: int
  stones :: "color list"
  current_player :: color
  last_move :: "nat option"
  last2_move :: "nat option"

text \<open>
  The methods of the board whose code is not part of the sources at hand are
  parameters of the solver: \<open>GoBoardUtil.generate_legal_moves(board, color)\<close>,
  \<open>board.play_move(move, color)\<close>, which returns whether the move was legal and leaves
  the board as it mutated it, and \<open>board.hash_code()\<close>.
\<close>

record board_ops =
  generate_legal_moves :: "go_board \<Rightarrow> color \<Rightarrow> nat list"
  play_move :: "go_board \<Rightarrow> nat \<Rightarrow> color \<Rightarrow> bool \<times> go_board"
  hash_code :: "go_board \<Rightarrow> int"

text \<open>
  Modelled from the spec: \<open>board.set_point(move, EMPTY)\<close> is the board's primitive
  that writes one cell (the specification's \<open>setPoint\<close>, used to revert the cell that was
  written); an index outside the array raises \<open>IndexError\<close>.
\<close>

definition set_point :: "go_board \<Rightarrow> nat \<Rightarrow> color \<Rightarrow> error + go_board" where
  "set_point b point c =
     (if point < length (stones b) then Inr (b\<lparr>stones := (stones b)[point := c]\<rparr>)
      else Inl IndexError)"

section \<open>The transposition table\<close>

text \<open>
  Modelled from the spec: the class \<open>TranspositionTable\<close> is not part of the sources at
  hand. The specification gives \<open>lookup(hash) -> Optional<bool>\<close>, \<open>store(hash, value)\<close>
  and \<open>clear()\<close> on a mapping from position hash to boolean, without eviction.
\<close>

type_synonym transposition_table = "int \<rightharpoonup> bool"

definition tt_clear :: transposition_table where
  "tt_clear = Map.empty"

definition tt_lookup :: "transposition_table \<Rightarrow> int \<Rightarrow> bool option" where
  "tt_lookup t h = t h"

definition tt_store :: "transposition_table \<Rightarrow> int \<Rightarrow> bool \<Rightarrow> transposition_table" where
  "tt_store t h v = t(h \<mapsto> v)"

section \<open>The exact solver\<close>

text \<open>
  The argument list \<open>[board, winning_moves, tt]\<close> of \<open>boolean_negamax_tt\<close>: three
  mutable objects shared by every recursive call, passed here as one state.
\<close>

record solver_state =
  sboard :: go_board
  winning_moves :: "string list"
  tt :: transposition_table

text \<open>
  The outcome of a call: \<open>None\<close> when the recursion budget is used up, \<open>Some (Inl e)\<close>
  when the exception \<open>e\<close> is raised, \<open>Some (Inr (result, state))\<close> on a normal return.
\<close>

type_synonym 'a outcome = "(error + 'a) option"

definition storeResult :: "board_ops \<Rightarrow> solver_state \<Rightarrow> bool \<Rightarrow> bool \<times> solver_state" where
  "storeResult ops st result =
     (result, st\<lparr>tt := tt_store (tt st) (hash_code ops (sboard st)) result\<rparr>)"

text \<open>
  The body of the loop over the legal moves up to the test \<open>if success\<close>: snapshot,
  \<open>play_move\<close>, the recursive call \<open>search\<close>, and the undo. It yields the flag
  \<open>success\<close>; a move that \<open>play_move\<close> refuses is skipped (\<open>continue\<close>) and counts
  as not proving.
\<close>

definition explore ::
  "(solver_state \<Rightarrow> (bool \<times> solver_state) outcome) \<Rightarrow> board_ops \<Rightarrow> nat \<Rightarrow> solver_state
     \<Rightarrow> (bool \<times> solver_state) outcome" where
  "explore search ops move st =
     (let board = sboard st;
          last_move' = last_move board;
          last2_move' = last2_move board;
          current_player' = current_player board
      in case play_move ops board move (current_player board) of
           (False, board1) \<Rightarrow> Some (Inr (False, st\<lparr>sboard := board1\<rparr>))
         | (True, board1) \<Rightarrow>
             (case search (st\<lparr>sboard := board1\<rparr>) of
                None \<Rightarrow> None
              | Some (Inl e) \<Rightarrow> Some (Inl e)
              | Some (Inr (result, st1)) \<Rightarrow>
                  (case set_point (sboard st1) move EMPTY of
                     Inl e \<Rightarrow> Some (Inl e)
                   | Inr board2 \<Rightarrow>
                       Some (Inr (\<not> result,
                         st1\<lparr>sboard := board2\<lparr>last_move := last_move',
                                                last2_move := last2_move',
                                                current_player := current_player'\<rparr>\<rparr>)))))"

text \<open>
  The loop \<open>for move in legal_moves\<close>: the first move whose exploration succeeds is
  formatted, appended in lower case to the winning-move trail, and \<open>True\<close> is stored and
  returned; when the list is exhausted \<open>False\<close> is stored and returned.
\<close>

fun explore_moves ::
  "(solver_state \<Rightarrow> (bool \<times> solver_state) outcome) \<Rightarrow> board_ops \<Rightarrow> nat list \<Rightarrow> solver_state
     \<Rightarrow> (bool \<times> solver_state) outcome" where
  "explore_moves search ops [] st = Some (Inr (storeResult ops st False))"
| "explore_moves search ops (move # moves) st =
     (case explore search ops move st of
        None \<Rightarrow> None
      | Some (Inl e) \<Rightarrow> Some (Inl e)
      | Some (Inr (success, st2)) \<Rightarrow>
          if success then
            (case format_point (point_to_coord (Some move) (bsize (sboard st2))) of
               Inl e \<Rightarrow> Some (Inl e)
             | Inr move_as_string \<Rightarrow>
                 Some (Inr (storeResult ops
                   (st2\<lparr>winning_moves := winning_moves st2 @ [lower move_as_string]\<rparr>) True)))
          else explore_moves search ops moves st2)"

text \<open>
  \<open>boolean_negamax_tt\<close>, with the depth of the recursion bounded by a budget: a call
  with budget 0 stands for a call that has not returned.
\<close>

fun boolean_negamax_tt :: "board_ops \<Rightarrow> nat \<Rightarrow> solver_state \<Rightarrow> (bool \<times> solver_state) outcome" where
  "boolean_negamax_tt ops 0 st = None"
| "boolean_negamax_tt ops (Suc fuel) st =
     (case tt_lookup (tt st) (hash_code ops (sboard st)) of
        Some result \<Rightarrow> Some (Inr (result, st))
      | None \<Rightarrow>
          (let legal_moves = generate_legal_moves ops (sboard st) (current_player (sboard st));
               opp_legal_moves =
                 generate_legal_moves ops (sboard st) (opponent (current_player (sboard st)))
           in if length legal_moves = 0 then Some (Inr (storeResult ops st False))
              else if length opp_legal_moves = 0 then Some (Inr (storeResult ops st True))
              else explore_moves (boolean_negamax_tt ops fuel) ops legal_moves st))"

section \<open>The solve command\<close>

text \<open>
  The part of the connection object that \<open>solve_cmd\<close> touches: the live board, the time
  limit, what has been written to standard output, and whether a \<open>SIGALRM\<close> requested
  with \<open>signal.alarm\<close> is still pending for the process.
\<close>

record gtp_connection =
  board :: go_board
  timelimit :: int
  alarm_pending :: bool
  stdout :: "string list"

definition respond :: "string \<Rightarrow> gtp_connection \<Rightarrow> gtp_connection" where
  "respond response conn = conn\<lparr>stdout := stdout conn @ [''= '' @ response @ [CHR 0x0A, CHR 0x0A]]\<rparr>"

text \<open>The list \<open>[None, "b", "w"]\<close> indexed by a colour code.\<close>

fun int_to_color :: "color \<Rightarrow> error + string option" where
  "int_to_color EMPTY = Inr None"
| "int_to_color BLACK = Inr (Some ''b'')"
| "int_to_color WHITE = Inr (Some ''w'')"
| "int_to_color BORDER = Inl IndexError"

text \<open>The test \<open>len(args) == 0 or (len(args) > 0 and args[0] != "genmove")\<close>.\<close>

definition responds :: "string list \<Rightarrow> bool" where
  "responds args \<longleftrightarrow> length args = 0 \<or> (length args > 0 \<and> hd args \<noteq> ''genmove'')"

text \<open>Modelled from the spec: \<open>board.copy()\<close> yields a private copy of the board.\<close>

definition copy :: "go_board \<Rightarrow> go_board" where
  "copy b = b"

text \<open>
  \<open>solve_cmd\<close>. \<open>signal.alarm(self.timelimit)\<close> requests the signal, or requests none
  when the limit is 0. The flag \<open>expires\<close> is the environment's part: whether the
  countdown elapses while the search is running, in which case \<open>signal_handler\<close> raises
  inside the search and the pending signal is consumed. The handler
  \<open>except Exception\<close> covers the search alone; the assertion and the responses come
  after it.
\<close>

definition solve_cmd ::
  "board_ops \<Rightarrow> nat \<Rightarrow> bool \<Rightarrow> string list \<Rightarrow> gtp_connection
     \<Rightarrow> (string option \<times> gtp_connection) outcome" where
  "solve_cmd ops fuel expires args conn =
     (let conn1 = conn\<lparr>alarm_pending := (timelimit conn \<noteq> 0)\<rparr>;
          interrupted = (expires \<and> alarm_pending conn1);
          conn2 = (if interrupted then conn1\<lparr>alarm_pending := False\<rparr> else conn1);
          searched =
            (if interrupted then Some (Inl TimeoutUnknown)
             else boolean_negamax_tt ops fuel
                    \<lparr>sboard = copy (board conn1), winning_moves = [], tt = tt_clear\<rparr>)
      in case searched of
           None \<Rightarrow> None
         | Some (Inl e) \<Rightarrow>
             Some (Inr (None, if responds args then respond ''unknown'' conn2 else conn2))
         | Some (Inr (solvedForToPlay, st)) \<Rightarrow>
             if solvedForToPlay then
               if \<not> length (winning_moves st) > 0 then Some (Inl AssertionError)
               else
                 (let move = last (winning_moves st) in
                  case int_to_color (current_player (board conn2)) of
                    Inl e \<Rightarrow> Some (Inl e)
                  | Inr color \<Rightarrow>
                      if responds args then
                        (case color of
                           None \<Rightarrow> Some (Inl TypeError)
                         | Some c \<Rightarrow> Some (Inr (Some move, respond (c @ '' '' @ move) conn2)))
                      else Some (Inr (Some move, conn2)))
             else
               (case int_to_color (opponent (current_player (board conn2))) of
                  Inl e \<Rightarrow> Some (Inl e)
                | Inr opponent_color \<Rightarrow>
                    Some (Inr (None,
                      if responds args
                      then respond (case opponent_color of None \<Rightarrow> ''None'' | Some c \<Rightarrow> c) conn2
                      else conn2))))"


section \<open>A board to run the solver on\<close>

text \<open>
  Modelled from the spec: the rules of the game, which the board module implements and
  the sources at hand do not contain. A move is legal iff it is played by Black or
  White on an empty point, captures nothing (captures are illegal in this variant) and
  does not leave the mover's own block without a liberty. The flat array has \<open>size + 1\<close>
  cells per row, the neighbours of a point are the cells before, after, below and above
  it; legal moves are enumerated by increasing index. The hash is the position written in
  base 4, side to move first.
\<close>

definition cell :: "go_board \<Rightarrow> nat \<Rightarrow> color" where
  "cell b p = (if p < length (stones b) then stones b ! p else BORDER)"

definition neighbors :: "go_board \<Rightarrow> nat \<Rightarrow> nat list" where
  "neighbors b p = (let NS = nat (bsize b) + 1 in [p - 1, p + 1, p - NS, p + NS])"

fun block_of :: "nat \<Rightarrow> go_board \<Rightarrow> color \<Rightarrow> nat list \<Rightarrow> nat list \<Rightarrow> nat list" where
  "block_of 0 b c frontier seen = seen"
| "block_of (Suc k) b c [] seen = seen"
| "block_of (Suc k) b c (p # frontier) seen =
     (if p \<in> set seen \<or> cell b p \<noteq> c then block_of k b c frontier seen
      else block_of k b c (neighbors b p @ frontier) (p # seen))"

definition has_liberty :: "go_board \<Rightarrow> nat \<Rightarrow> bool" where
  "has_liberty b p =
     list_ex (\<lambda>q. list_ex (\<lambda>n. cell b n = EMPTY) (neighbors b q))
       (block_of (5 * length (stones b) + 5) b (cell b p) [p] [])"

definition is_legal :: "go_board \<Rightarrow> nat \<Rightarrow> color \<Rightarrow> bool" where
  "is_legal b p c \<longleftrightarrow>
     (c = BLACK \<or> c = WHITE) \<and> p < length (stones b) \<and> stones b ! p = EMPTY \<and>
     (let b1 = b\<lparr>stones := (stones b)[p := c]\<rparr>
      in has_liberty b1 p \<and>
         list_all (\<lambda>n. cell b1 n = opponent c \<longrightarrow> has_liberty b1 n) (neighbors b1 p))"

fun color_code :: "color \<Rightarrow> int" where
  "color_code EMPTY = 0"
| "color_code BLACK = 1"
| "color_code WHITE = 2"
| "color_code BORDER = 3"

definition nogo_ops :: board_ops where
  "nogo_ops =
     \<lparr>generate_legal_moves = (\<lambda>b c. filter (\<lambda>p. is_legal b p c) [0..<length (stones b)]),
      play_move = (\<lambda>b p c.
        if is_legal b p c
        then (True, b\<lparr>stones := (stones b)[p := c], current_player := opponent c,
                      last_move := Some p, last2_move := last_move b\<rparr>)
        else (False, b)),
      hash_code = (\<lambda>b. foldl (\<lambda>h c. 4 * h + color_code c) (color_code (current_player b)) (stones b))\<rparr>"

text \<open>
  Boards in the flat layout: an empty board of a given size, and a board with stones
  placed on it in turn.
\<close>

definition on_board :: "int \<Rightarrow> nat \<Rightarrow> bool" where
  "on_board n p \<longleftrightarrow>
     1 \<le> int p div (n + 1) \<and> int p div (n + 1) \<le> n \<and> 1 \<le> int p mod (n + 1) \<and> int p mod (n + 1) \<le> n"

definition empty_board :: "int \<Rightarrow> color \<Rightarrow> go_board" where
  "empty_board n to_play =
     \<lparr>bsize = n,
      stones = map (\<lambda>p. if on_board n p then EMPTY else BORDER) [0..<nat (n * n + 3 * (n + 1))],
      current_player = to_play, last_move = None, last2_move = None\<rparr>"

definition place :: "(nat \<times> color) list \<Rightarrow> go_board \<Rightarrow> go_board" where
  "place ps b = b\<lparr>stones := fold (\<lambda>(p, c) ss. ss[p := c]) ps (stones b)\<rparr>"

section \<open>Notions used to state the properties\<close>

text \<open>The column decoding and the letter test of \<open>move_to_coord\<close>, named.\<close>

definition decode_col :: "char \<Rightarrow> int" where
  "decode_col l = (if l < CHR ''i'' then int (of_char l) - int (of_char (CHR ''a'')) + 1
                   else int (of_char l) - int (of_char (CHR ''a'')))"

definition col_letter :: "char \<Rightarrow> bool" where
  "col_letter l \<longleftrightarrow> CHR ''a'' \<le> l \<and> l \<le> CHR ''z'' \<and> l \<noteq> CHR ''i''"

text \<open>
  What the solver relies on from \<open>play_move\<close>: a refused move leaves the board as it
  was; an accepted move was played on an empty cell of the array, wrote a stone there,
  and changed no other cell and not the size (it may set \<open>current_player\<close>,
  \<open>last_move\<close> and \<open>last2_move\<close> as it likes).
\<close>

definition board_contract :: "board_ops \<Rightarrow> bool" where
  "board_contract ops \<longleftrightarrow>
     (\<forall>b m c b'.
        (play_move ops b m c = (False, b') \<longrightarrow> b' = b) \<and>
        (play_move ops b m c = (True, b') \<longrightarrow>
           m < length (stones b) \<and> stones b ! m = EMPTY \<and> c \<noteq> EMPTY \<and>
           stones b' = (stones b)[m := c] \<and> bsize b' = bsize b))"

definition empties :: "go_board \<Rightarrow> nat" where
  "empties b = length (filter (\<lambda>c. c = EMPTY) (stones b))"



text \<open>Positions used as examples, on boards of size 2 and 3.\<close>

definition start2 :: solver_state where
  "start2 = \<lparr>sboard = empty_board 2 BLACK, winning_moves = [], tt = tt_clear\<rparr>"

definition eyes3 :: go_board where
  "eyes3 = place [(5, WHITE), (9, BLACK), (10, BLACK), (11, BLACK), (7, BLACK), (14, BLACK)]
             (empty_board 3 BLACK)"

definition conn_of :: "go_board \<Rightarrow> gtp_connection" where
  "conn_of b = \<lparr>board = b, timelimit = 1, alarm_pending = False, stdout = []\<rparr>"

text \<open>A search procedure that hands the board back as it received it.\<close>

definition keeps_board :: "(solver_state \<Rightarrow> (bool \<times> solver_state) outcome) \<Rightarrow> bool" where
  "keeps_board search \<longleftrightarrow>
     (\<forall>st r st'. search st = Some (Inr (r, st')) \<longrightarrow> sboard st' = sboard st)"


text \<open>How a call ends once it has an outcome: by a return, or by the \<open>ValueError\<close> of \<open>format_point\<close>.\<close>

definition ended :: "(bool \<times> solver_state) outcome \<Rightarrow> bool" where
  "ended out \<longleftrightarrow> (\<exists>r st'. out = Some (Inr (r, st'))) \<or> out = Some (Inl ValueError)"

definition corner2 :: solver_state where
  "corner2 = \<lparr>sboard = place [(4, BLACK), (8, WHITE)] (empty_board 2 BLACK),
               winning_moves = [], tt = tt_clear\<rparr>"

definition won3 :: solver_state where
  "won3 = \<lparr>sboard = eyes3, winning_moves = [], tt = tt_clear\<rparr>"

definition lost3 :: solver_state where
  "lost3 = \<lparr>sboard = eyes3\<lparr>current_player := WHITE\<rparr>, winning_moves = [], tt = tt_clear\<rparr>"

section \<open>Decimal numerals\<close>

lemma of_char_digit_char: "d < 10 \<Longrightarrow> of_char (digit_char d) = 48 + d"
  by (simp add: digit_char_def)

lemma is_digit_code: "is_digit c \<longleftrightarrow> 48 \<le> (of_char c :: nat) \<and> (of_char c :: nat) \<le> 57"
  by (simp add: is_digit_def less_eq_char_def)

lemma is_digit_digit_char: "d < 10 \<Longrightarrow> is_digit (digit_char d)"
  by (simp add: is_digit_code of_char_digit_char)

lemma digit_val_digit_char: "d < 10 \<Longrightarrow> digit_val (digit_char d) = d"
  by (simp add: digit_val_def of_char_digit_char)

lemma str_nat_digits: "\<forall>c \<in> set (str_nat n). is_digit c"
proof (induction n rule: str_nat.induct)
  case (1 n)
  show ?case
  proof (cases "n < 10")
    case True
    then show ?thesis by (simp add: str_nat.simps [of n] is_digit_digit_char)
  next
    case False
    then show ?thesis using 1 by (simp add: str_nat.simps [of n] is_digit_digit_char)
  qed
qed

lemma str_nat_nonempty: "str_nat n \<noteq> []"
  by (subst str_nat.simps) simp

lemma digits_value_all_digits:
  "\<forall>c \<in> set ds. is_digit c \<Longrightarrow> ds \<noteq> [] \<or> prev \<Longrightarrow>
   digits_value prev acc ds = Some (foldl (\<lambda>a c. 10 * a + digit_val c) acc ds)"
  by (induction ds arbitrary: prev acc) auto

lemma foldl_str_nat: "foldl (\<lambda>a c. 10 * a + digit_val c) 0 (str_nat n) = n"
proof (induction n rule: str_nat.induct)
  case (1 n)
  show ?case
  proof (cases "n < 10")
    case True
    then show ?thesis by (simp add: str_nat.simps [of n] digit_val_digit_char)
  next
    case False
    then show ?thesis using 1 by (simp add: str_nat.simps [of n] digit_val_digit_char)
  qed
qed

lemma digit_not_space: "is_digit c \<Longrightarrow> \<not> is_space c"
  by (auto simp: is_digit_code is_space_def)

lemma digit_not_sign: "is_digit c \<Longrightarrow> c \<noteq> CHR ''-'' \<and> c \<noteq> CHR ''+'' "
  by (auto simp: is_digit_code)

lemma strip_digits: "\<forall>c \<in> set ds. is_digit c \<Longrightarrow> strip ds = ds"
proof (cases ds rule: rev_cases)
  case Nil then show ?thesis by (simp add: strip_def)
next
  case (snoc ys y)
  assume a: "\<forall>c \<in> set ds. is_digit c"
  have 1: "dropWhile is_space ds = ds"
    using a by (cases ds) (auto simp: digit_not_space)
  have 2: "dropWhile is_space (rev ds) = rev ds"
    using a snoc by (auto simp: digit_not_space)
  show ?thesis by (simp add: strip_def 1 2)
qed

lemma py_int_digits:
  assumes "\<forall>c \<in> set ds. is_digit c" "ds \<noteq> []"
  shows "py_int ds = Some (int (foldl (\<lambda>a c. 10 * a + digit_val c) 0 ds))"
proof -
  obtain c cs where ds: "ds = c # cs" using assms(2) by (cases ds) auto
  have "is_digit c" using assms(1) ds by simp
  then have s: "c \<noteq> CHR ''-''" "c \<noteq> CHR ''+''" using digit_not_sign by auto
  have v: "digits_value False 0 (c # cs) = Some (foldl (\<lambda>a c. 10 * a + digit_val c) 0 ds)"
    using digits_value_all_digits [OF assms(1)] assms(2) ds by blast
  have "strip ds = c # cs" using strip_digits [OF assms(1)] ds by simp
  then have "py_int ds = map_option int (digits_value False 0 (c # cs))"
    using s by (simp add: py_int_def)
  then show ?thesis by (simp only: v option.map)
qed

lemma py_int_str_int: "0 \<le> r \<Longrightarrow> py_int (str_int r) = Some r"
  by (simp add: str_int_def py_int_digits [OF str_nat_digits str_nat_nonempty] foldl_str_nat)

lemma lower_char_digit: "is_digit c \<Longrightarrow> lower_char c = c"
  by (auto simp: is_digit_code lower_char_def less_eq_char_def)

lemma lower_digits: "\<forall>c \<in> set ds. is_digit c \<Longrightarrow> lower ds = ds"
  by (induction ds) (auto simp: lower_def lower_char_digit)

section \<open>Columns and letters\<close>

lemma lower_not_pass: "\<forall>c \<in> set ds. is_digit c \<Longrightarrow> ds \<noteq> [] \<Longrightarrow> l # ds \<noteq> ''pass''"
  by (cases ds) (auto simp: is_digit_code)

lemma move_to_coord_letter_digits:
  assumes n: "2 \<le> n" "n \<le> 25"
    and ds: "\<forall>c \<in> set ds. is_digit c" "ds \<noteq> []"
    and l: "col_letter (lower_char L)"
    and row: "row = int (foldl (\<lambda>a c. 10 * a + digit_val c) 0 ds)"
  shows "move_to_coord (L # ds) n =
           (if row < 1 then Inl ValueError
            else if \<not> (decode_col (lower_char L) \<le> n \<and> row \<le> n) then Inl ValueError
            else Inr (RC row (decode_col (lower_char L))))"
proof -
  have low: "lower (L # ds) = lower_char L # ds"
    using lower_digits [OF ds(1)] by (simp add: lower_def)
  have np: "(lower_char L # ds = ''pass'') = False"
    using lower_not_pass [OF ds] by blast
  have pi: "py_int ds = Some row" using py_int_digits [OF ds] row by simp
  have sz: "(\<not> (2 \<le> n \<and> n \<le> MAXSIZE)) = False" using n by (simp add: MAXSIZE_def)
  have lt: "(\<not> (CHR ''a'' \<le> lower_char L \<and> lower_char L \<le> CHR ''z'') \<or> lower_char L = CHR ''i'') = False"
    using l by (simp add: col_letter_def)
  show ?thesis
    unfolding move_to_coord_def low Let_def sz np lt if_False list.case pi option.case decode_col_def
    by (rule refl)
qed

lemma range_cases:
  "1 \<le> (c::int) \<Longrightarrow> c \<le> 24 \<Longrightarrow>
   c = 1 \<or> c = 2 \<or> c = 3 \<or> c = 4 \<or> c = 5 \<or> c = 6 \<or> c = 7 \<or> c = 8 \<or> c = 9 \<or> c = 10 \<or>
   c = 11 \<or> c = 12 \<or> c = 13 \<or> c = 14 \<or> c = 15 \<or> c = 16 \<or> c = 17 \<or> c = 18 \<or> c = 19 \<or>
   c = 20 \<or> c = 21 \<or> c = 22 \<or> c = 23 \<or> c = 24"
  by arith

lemma column_decode:
  assumes "1 \<le> c" "c \<le> 24"
  shows "col_letter (lower_char (column_letters ! nat (c - 1))) \<and>
         decode_col (lower_char (column_letters ! nat (c - 1))) = c"
  using range_cases [OF assms]
  by (elim disjE; simp add: column_letters_def lower_char_def col_letter_def decode_col_def
      less_eq_char_def less_char_def char_of_eq_iff)

lemma format_point_in_range:
  assumes "0 \<le> r" "r \<le> 24" "1 \<le> c" "c \<le> 24"
  shows "format_point (RC r c) = Inr (column_letters ! nat (c - 1) # str_int r)"
  using assms by (simp add: format_point_def MAXSIZE_def py_index_def column_letters_def)

lemma col_letter_code:
  "col_letter l \<longleftrightarrow> 97 \<le> (of_char l :: nat) \<and> (of_char l :: nat) \<le> 122 \<and> (of_char l :: nat) \<noteq> 105"
proof -
  have "(l = CHR ''i'') = ((of_char l :: nat) = of_char (CHR ''i''))"
    by (simp only: of_char_eq_iff)
  then show ?thesis by (simp add: col_letter_def less_eq_char_def)
qed

lemma decode_col_code:
  "decode_col l = (if (of_char l :: nat) < 105 then int (of_char l) - 96 else int (of_char l) - 97)"
  by (simp add: decode_col_def less_char_def)

lemma decode_col_inj:
  assumes "col_letter l" "col_letter l'" "decode_col l = decode_col l'"
  shows "l = l'"
proof -
  have "(of_char l :: nat) = of_char l'"
    using assms unfolding col_letter_code decode_col_code by (simp split: if_splits)
  then show ?thesis by (simp only: of_char_eq_iff)
qed

lemma col_letter_pos: "col_letter l \<Longrightarrow> 1 \<le> decode_col l"
  unfolding col_letter_code decode_col_code by (simp split: if_splits)

lemma lower_char_idem: "lower_char (lower_char c) = lower_char c"
  by (auto simp: lower_char_def less_eq_char_def)

lemma forward_round_trip:
  assumes "1 \<le> r" "r \<le> 24" "1 \<le> c" "c \<le> 24" "r \<le> n" "c \<le> n" "2 \<le> n" "n \<le> 25"
  shows "\<exists>s. format_point (RC r c) = Inr s \<and> move_to_coord s n = Inr (RC r c)"
proof -
  let ?L = "column_letters ! nat (c - 1)"
  have f: "format_point (RC r c) = Inr (?L # str_int r)"
    using assms by (simp add: format_point_in_range)
  have sr: "str_int r = str_nat (nat r)" using assms by (simp add: str_int_def)
  have row: "r = int (foldl (\<lambda>a c. 10 * a + digit_val c) 0 (str_nat (nat r)))"
    using assms by (simp add: foldl_str_nat)
  have cd: "col_letter (lower_char ?L)" "decode_col (lower_char ?L) = c"
    using column_decode [OF assms(3,4)] by auto
  have "move_to_coord (?L # str_nat (nat r)) n = Inr (RC r c)"
    using move_to_coord_letter_digits [OF assms(7,8) str_nat_digits str_nat_nonempty cd(1) row] assms cd(2)
    by simp
  then show ?thesis using f sr by simp
qed

lemma move_to_coord_parts:
  assumes "move_to_coord s n = Inr (RC r c)"
  shows "\<exists>L rest. s = L # rest \<and> col_letter (lower_char L) \<and> c = decode_col (lower_char L) \<and> 1 \<le> r"
proof (cases s)
  case Nil
  then show ?thesis using assms by (simp add: move_to_coord_def lower_def Let_def split: if_splits)
next
  case (Cons L rest)
  then show ?thesis using assms
    by (auto simp: move_to_coord_def lower_def Let_def col_letter_def decode_col_def
        split: if_splits option.splits)
qed

lemma backward_round_trip:
  assumes "move_to_coord s n = Inr (RC r c)" "r \<le> 24" "c \<le> 24" "tl s = str_int r"
  shows "\<exists>out. format_point (RC r c) = Inr out \<and> lower out = lower s"
proof -
  obtain L rest where s: "s = L # rest" and l: "col_letter (lower_char L)"
    and c: "c = decode_col (lower_char L)" and r: "1 \<le> r"
    using move_to_coord_parts [OF assms(1)] by blast
  have c1: "1 \<le> c" using col_letter_pos [OF l] c by simp
  let ?K = "column_letters ! nat (c - 1)"
  have f: "format_point (RC r c) = Inr (?K # str_int r)"
    using r c1 assms by (simp add: format_point_in_range)
  have "lower_char ?K = lower_char L"
    using column_decode [OF c1 assms(3)] l c by (auto intro: decode_col_inj)
  then have "lower (?K # str_int r) = lower s"
    using s assms(4) by (simp add: lower_def)
  then show ?thesis using f by simp
qed


section \<open>The undo discipline\<close>

lemma undo_restores:
  assumes "stones b ! m = EMPTY" "m < length (stones b)"
    "stones b1 = (stones b)[m := c]" "bsize b1 = bsize b"
  shows "set_point b1 m EMPTY = Inr (b1\<lparr>stones := stones b\<rparr>)"
proof -
  have "(stones b1)[m := EMPTY] = stones b"
    using assms by (simp add: list_update_same_conv)
  then show ?thesis using assms by (simp add: set_point_def)
qed

lemma contract_refused:
  "board_contract ops \<Longrightarrow> play_move ops b m c = (False, b') \<Longrightarrow> b' = b"
  unfolding board_contract_def by blast

lemma contract_played:
  "board_contract ops \<Longrightarrow> play_move ops b m c = (True, b') \<Longrightarrow>
   m < length (stones b) \<and> stones b ! m = EMPTY \<and> c \<noteq> EMPTY \<and>
   stones b' = (stones b)[m := c] \<and> bsize b' = bsize b"
  unfolding board_contract_def by blast

lemma explore_keeps_board:
  assumes c: "board_contract ops" and k: "keeps_board search"
    and e: "explore search ops m st = Some (Inr (s, st2))"
  shows "sboard st2 = sboard st"
proof (cases "play_move ops (sboard st) m (current_player (sboard st))")
  case (Pair ok b1)
  show ?thesis
  proof (cases ok)
    case False
    then have "b1 = sboard st" using contract_refused [OF c] Pair by simp
    then show ?thesis using e Pair False by (simp add: explore_def Let_def)
  next
    case True
    then have p: "m < length (stones (sboard st))" "stones (sboard st) ! m = EMPTY"
      "stones b1 = (stones (sboard st))[m := current_player (sboard st)]" "bsize b1 = bsize (sboard st)"
      using contract_played [OF c, of "sboard st" m "current_player (sboard st)" b1] Pair by simp_all
    obtain r st1 where s: "search (st\<lparr>sboard := b1\<rparr>) = Some (Inr (r, st1))"
      using e Pair True by (auto simp: explore_def Let_def split: option.splits sum.splits)
    then have b: "sboard st1 = b1" using k by (auto simp: keeps_board_def)
    have u: "set_point (sboard st1) m EMPTY = Inr (b1\<lparr>stones := stones (sboard st)\<rparr>)"
      using undo_restores [OF p(2) p(1) p(3) p(4)] b by simp
    have "st2 = st1\<lparr>sboard := b1\<lparr>stones := stones (sboard st),
             last_move := last_move (sboard st), last2_move := last2_move (sboard st),
             current_player := current_player (sboard st)\<rparr>\<rparr>"
      using e Pair True s u by (simp add: explore_def Let_def)
    then show ?thesis using p(4) by simp
  qed
qed

lemma explore_moves_keeps_board:
  assumes c: "board_contract ops" and k: "keeps_board search"
  shows "explore_moves search ops ms st = Some (Inr (r, st')) \<Longrightarrow> sboard st' = sboard st"
proof (induction ms arbitrary: st)
  case Nil
  then show ?case by (auto simp: storeResult_def)
next
  case (Cons m ms)
  from Cons.prems obtain s st2 where e: "explore search ops m st = Some (Inr (s, st2))"
    by (auto split: option.splits sum.splits)
  have b: "sboard st2 = sboard st" by (rule explore_keeps_board [OF c k e])
  show ?case
  proof (cases s)
    case True
    then show ?thesis using Cons.prems e b
      by (auto simp: storeResult_def split: sum.splits)
  next
    case False
    then have "explore_moves search ops ms st2 = Some (Inr (r, st'))"
      using Cons.prems e by simp
    then show ?thesis using Cons.IH b by simp
  qed
qed

lemma negamax_keeps_board:
  assumes c: "board_contract ops"
  shows "keeps_board (boolean_negamax_tt ops fuel)"
proof (induction fuel)
  case 0
  show ?case by (simp add: keeps_board_def)
next
  case (Suc fuel)
  show ?case
    unfolding keeps_board_def
  proof (intro allI impI)
    fix st r st'
    assume a: "boolean_negamax_tt ops (Suc fuel) st = Some (Inr (r, st'))"
    show "sboard st' = sboard st"
    proof (cases "tt_lookup (tt st) (hash_code ops (sboard st))")
      case (Some v)
      then show ?thesis using a by simp
    next
      case None
      then show ?thesis using a explore_moves_keeps_board [OF c Suc]
        by (auto simp: Let_def storeResult_def split: if_splits)
    qed
  qed
qed

section \<open>The loop over the legal moves\<close>

lemma nogo_contract: "board_contract nogo_ops"
  unfolding board_contract_def nogo_ops_def
  by (auto simp: is_legal_def split: if_splits)




lemma empties_played:
  assumes "m < length ss" "ss ! m = EMPTY" "c \<noteq> EMPTY"
  shows "length (filter (\<lambda>x. x = EMPTY) (ss[m := c])) < length (filter (\<lambda>x. x = EMPTY) ss)"
proof -
  have ss: "ss = take m ss @ EMPTY # drop (Suc m) ss"
    using assms(1,2) by (metis id_take_nth_drop)
  have "ss[m := c] = take m ss @ c # drop (Suc m) ss"
    using assms(1) by (simp add: upd_conv_take_nth_drop)
  then have "length (filter (\<lambda>x. x = EMPTY) (ss[m := c])) =
      length (filter (\<lambda>x. x = EMPTY) (take m ss)) + length (filter (\<lambda>x. x = EMPTY) (drop (Suc m) ss))"
    using assms(3) by simp
  moreover have "length (filter (\<lambda>x. x = EMPTY) ss) =
      length (filter (\<lambda>x. x = EMPTY) (take m ss)) + 1 + length (filter (\<lambda>x. x = EMPTY) (drop (Suc m) ss))"
    by (subst ss) simp
  ultimately show ?thesis by simp
qed

lemma contract_fewer_empties:
  assumes "board_contract ops" "play_move ops b m c = (True, b')"
  shows "empties b' < empties b"
  using contract_played [OF assms] empties_played [of m "stones b" c]
  by (simp add: empties_def)

section \<open>The search ends\<close>


lemma format_point_error: "format_point c = Inl e \<Longrightarrow> e = ValueError"
  by (cases c)
     (auto simp: format_point_def MAXSIZE_def py_index_def column_letters_def split: if_splits)

lemma ended_simps:
  "ended (Some (Inr p))" "ended (Some (Inl ValueError))" "\<not> ended None"
  by (cases p) (auto simp: ended_def)

lemma explore_ends:
  assumes c: "board_contract ops" and k: "keeps_board search"
    and t: "\<forall>s. empties (sboard s) < empties (sboard st) \<longrightarrow> ended (search s)"
  shows "ended (explore search ops m st)"
proof (cases "play_move ops (sboard st) m (current_player (sboard st))")
  case (Pair ok b1)
  show ?thesis
  proof (cases ok)
    case False
    then show ?thesis using Pair by (simp add: explore_def Let_def ended_simps)
  next
    case True
    have p: "m < length (stones (sboard st))" "stones (sboard st) ! m = EMPTY"
      "stones b1 = (stones (sboard st))[m := current_player (sboard st)]" "bsize b1 = bsize (sboard st)"
      using contract_played [OF c, of "sboard st" m "current_player (sboard st)" b1] Pair True by simp_all
    have "empties b1 < empties (sboard st)"
      using contract_fewer_empties [OF c, of "sboard st" m "current_player (sboard st)" b1] Pair True by simp
    then have e: "ended (search (st\<lparr>sboard := b1\<rparr>))" using t by simp
    show ?thesis
    proof (cases "search (st\<lparr>sboard := b1\<rparr>)")
      case None
      then show ?thesis using e by (simp add: ended_simps)
    next
      case (Some out)
      show ?thesis
      proof (cases out)
        case (Inl err)
        then have "err = ValueError" using e Some by (simp add: ended_def)
        then show ?thesis using Pair True Some Inl by (simp add: explore_def Let_def ended_simps)
      next
        case (Inr res)
        obtain r st1 where res: "res = (r, st1)" by (cases res)
        have b: "sboard st1 = b1" using k Some Inr res by (auto simp: keeps_board_def)
        have u: "set_point (sboard st1) m EMPTY = Inr (b1\<lparr>stones := stones (sboard st)\<rparr>)"
          using undo_restores [OF p(2) p(1) p(3) p(4)] b by simp
        show ?thesis using Pair True Some Inr res u by (simp add: explore_def Let_def ended_simps)
      qed
    qed
  qed
qed

lemma explore_moves_ends:
  assumes c: "board_contract ops" and k: "keeps_board search"
    and t: "\<forall>s. empties (sboard s) < empties b \<longrightarrow> ended (search s)"
  shows "sboard st = b \<Longrightarrow> ended (explore_moves search ops ms st)"
proof (induction ms arbitrary: st)
  case Nil
  show ?case by (simp add: ended_simps storeResult_def)
next
  case (Cons m ms)
  have e: "ended (explore search ops m st)"
    using explore_ends [OF c k] t Cons.prems by simp
  show ?case
  proof (cases "explore search ops m st")
    case None
    then show ?thesis using e by (simp add: ended_simps)
  next
    case (Some out)
    show ?thesis
    proof (cases out)
      case (Inl err)
      then have "err = ValueError" using e Some by (simp add: ended_def)
      then show ?thesis using Some Inl by (simp add: ended_simps)
    next
      case (Inr res)
      obtain s st2 where res: "res = (s, st2)" by (cases res)
      have b: "sboard st2 = b"
        using explore_keeps_board [OF c k] Some Inr res Cons.prems by blast
      show ?thesis
      proof (cases s)
        case True
        show ?thesis
        proof (cases "format_point (point_to_coord (Some m) (bsize (sboard st2)))")
          case (Inl err)
          then have "err = ValueError" by (rule format_point_error)
          then show ?thesis using Some \<open>out = Inr res\<close> res True Inl by (simp add: ended_simps)
        next
          case (Inr nm)
          then show ?thesis using Some \<open>out = Inr res\<close> res True
            by (simp add: ended_simps storeResult_def)
        qed
      next
        case False
        then show ?thesis using Some Inr res Cons.IH [OF b] by simp
      qed
    qed
  qed
qed

lemma negamax_ends:
  assumes c: "board_contract ops"
  shows "empties (sboard st) < fuel \<Longrightarrow> ended (boolean_negamax_tt ops fuel st)"
proof (induction fuel arbitrary: st)
  case 0
  then show ?case by simp
next
  case (Suc fuel)
  have t: "\<forall>s. empties (sboard s) < empties (sboard st) \<longrightarrow> ended (boolean_negamax_tt ops fuel s)"
    using Suc by auto
  have "ended (explore_moves (boolean_negamax_tt ops fuel) ops ms st)" for ms
    using explore_moves_ends [OF c negamax_keeps_board [OF c] t] by simp
  then show ?case
    by (cases "tt_lookup (tt st) (hash_code ops (sboard st))")
       (simp_all add: Let_def ended_simps storeResult_def)
qed

section \<open>Example positions\<close>

lemma terminal_win:
  assumes "tt_lookup (tt st) (hash_code ops (sboard st)) = None"
    and "generate_legal_moves ops (sboard st) (current_player (sboard st)) \<noteq> []"
    and "generate_legal_moves ops (sboard st) (opponent (current_player (sboard st))) = []"
  shows "boolean_negamax_tt ops (Suc fuel) st =
           Some (Inr (True, st\<lparr>tt := tt_store (tt st) (hash_code ops (sboard st)) True\<rparr>))"
  using assms by (simp add: storeResult_def)

lemma won3_miss: "tt_lookup (tt won3) (hash_code nogo_ops (sboard won3)) = None"
  by (simp add: won3_def tt_lookup_def tt_clear_def)

lemma won3_legal: "generate_legal_moves nogo_ops (sboard won3) (current_player (sboard won3)) = [13, 15]"
  by code_simp

lemma won3_opp: "generate_legal_moves nogo_ops (sboard won3) (opponent (current_player (sboard won3))) = []"
  by code_simp

lemma lost3_miss: "tt_lookup (tt lost3) (hash_code nogo_ops (sboard lost3)) = None"
  by (simp add: lost3_def tt_lookup_def tt_clear_def)

lemma lost3_legal: "generate_legal_moves nogo_ops (sboard lost3) (current_player (sboard lost3)) = []"
  by code_simp

lemma won3_search:
  "boolean_negamax_tt nogo_ops (Suc fuel) won3 =
     Some (Inr (True, won3\<lparr>tt := tt_store (tt won3) (hash_code nogo_ops (sboard won3)) True\<rparr>))"
  using terminal_win [OF won3_miss _ won3_opp] won3_legal by simp




lemma corner2_returns:
  "(case boolean_negamax_tt nogo_ops (Suc 2) corner2 of Some (Inr p) \<Rightarrow> fst p \<and> winning_moves (snd p) = [''b1''] | _ \<Rightarrow> False)"
  by code_simp

section \<open>Properties of the solver\<close>

text \<open>
  C3. In a position with no transposition-table entry, \<open>boolean_negamax_tt\<close> first
  tests the legal moves of the side to move: if there are none it stores \<open>False\<close> for
  the position's hash and returns \<open>False\<close>. Otherwise, if the opponent has no legal
  move in the same, not yet advanced position, it stores \<open>True\<close> and returns \<open>True\<close>.
  In both cases the board and the trail come back untouched: no move has been explored.
\<close>

theorem terminal_checks:
  assumes "tt_lookup (tt st) (hash_code ops (sboard st)) = None"
  shows "(generate_legal_moves ops (sboard st) (current_player (sboard st)) = [] \<longrightarrow>
            boolean_negamax_tt ops (Suc fuel) st =
              Some (Inr (False, st\<lparr>tt := tt_store (tt st) (hash_code ops (sboard st)) False\<rparr>))) \<and>
         (generate_legal_moves ops (sboard st) (current_player (sboard st)) \<noteq> [] \<and>
          generate_legal_moves ops (sboard st) (opponent (current_player (sboard st))) = [] \<longrightarrow>
            boolean_negamax_tt ops (Suc fuel) st =
              Some (Inr (True, st\<lparr>tt := tt_store (tt st) (hash_code ops (sboard st)) True\<rparr>)))"
  using assms by (simp add: storeResult_def)

theorem terminal_checks_witness:
  "tt_lookup (tt lost3) (hash_code nogo_ops (sboard lost3)) = None \<and>
   generate_legal_moves nogo_ops (sboard lost3) (current_player (sboard lost3)) = [] \<and>
   boolean_negamax_tt nogo_ops (Suc 0) lost3 =
     Some (Inr (False, lost3\<lparr>tt := tt_store (tt lost3) (hash_code nogo_ops (sboard lost3)) False\<rparr>)) \<and>
   tt_lookup (tt won3) (hash_code nogo_ops (sboard won3)) = None \<and>
   generate_legal_moves nogo_ops (sboard won3) (current_player (sboard won3)) \<noteq> [] \<and>
   generate_legal_moves nogo_ops (sboard won3) (opponent (current_player (sboard won3))) = [] \<and>
   boolean_negamax_tt nogo_ops (Suc 0) won3 =
     Some (Inr (True, won3\<lparr>tt := tt_store (tt won3) (hash_code nogo_ops (sboard won3)) True\<rparr>))"
  using terminal_checks [OF lost3_miss, of 0] terminal_checks [OF won3_miss, of 0]
    lost3_miss lost3_legal won3_miss won3_legal won3_opp
  by simp

text \<open>
  C2. Every call of \<open>boolean_negamax_tt\<close> that returns normally hands the board back
  as it received it, cells, \<open>last_move\<close>, \<open>last2_move\<close> and \<open>current_player\<close>
  alike, whichever return statement it leaves by. The board's own \<open>play_move\<close> is
  taken under its contract \<open>board_contract\<close>.
\<close>

theorem board_restored:
  assumes "board_contract ops"
    and "boolean_negamax_tt ops fuel st = Some (Inr (r, st'))"
  shows "sboard st' = sboard st"
  using negamax_keeps_board [OF assms(1), of fuel] assms(2) by (simp add: keeps_board_def)

theorem board_restored_witness:
  "board_contract nogo_ops \<and>
   (\<exists>r st'. boolean_negamax_tt nogo_ops (Suc 2) corner2 = Some (Inr (r, st')) \<and> sboard st' = sboard corner2)"
proof -
  obtain r st' where e: "boolean_negamax_tt nogo_ops (Suc 2) corner2 = Some (Inr (r, st'))"
    using corner2_returns by (auto split: option.splits sum.splits)
  have "sboard st' = sboard corner2" by (rule board_restored [OF nogo_contract e])
  then show ?thesis using nogo_contract e by blast
qed

text \<open>
  The search ends. An accepted move fills an empty point, so every recursive call is
  made on a board with strictly fewer empty points, and a budget larger than the number
  of empty points is never used up: the call has an outcome, which is a return or the
  \<open>ValueError\<close> of \<open>format_point\<close>.
\<close>

theorem search_terminates:
  assumes "board_contract ops"
  shows "(\<forall>b m c b'. play_move ops b m c = (True, b') \<longrightarrow> empties b' < empties b) \<and>
         (\<forall>fuel. empties (sboard st) < fuel \<longrightarrow>
            (\<exists>out. boolean_negamax_tt ops fuel st = Some out \<and>
                   ((\<exists>r st'. out = Inr (r, st')) \<or> out = Inl ValueError)))"
proof (intro conjI allI impI)
  fix b m c b'
  assume "play_move ops b m c = (True, b')"
  then show "empties b' < empties b" by (rule contract_fewer_empties [OF assms])
next
  fix fuel
  assume "empties (sboard st) < fuel"
  then have "ended (boolean_negamax_tt ops fuel st)" by (rule negamax_ends [OF assms])
  then show "\<exists>out. boolean_negamax_tt ops fuel st = Some out \<and>
                   ((\<exists>r st'. out = Inr (r, st')) \<or> out = Inl ValueError)"
    by (auto simp: ended_def)
qed

lemma corner2_empties: "empties (sboard corner2) = 2"
  by code_simp

lemma corner2_play:
  "fst (play_move nogo_ops (sboard corner2) 5 BLACK) \<and>
   empties (snd (play_move nogo_ops (sboard corner2) 5 BLACK)) = 1"
  by code_simp

theorem search_terminates_witness:
  "board_contract nogo_ops \<and>
   fst (play_move nogo_ops (sboard corner2) 5 BLACK) \<and>
   empties (snd (play_move nogo_ops (sboard corner2) 5 BLACK)) < empties (sboard corner2) \<and>
   empties (sboard corner2) < 3 \<and>
   (\<exists>out. boolean_negamax_tt nogo_ops 3 corner2 = Some out \<and>
          ((\<exists>r st'. out = Inr (r, st')) \<or> out = Inl ValueError))"
proof -
  have e: "empties (sboard corner2) < 3" by (simp add: corner2_empties)
  have "\<exists>out. boolean_negamax_tt nogo_ops 3 corner2 = Some out \<and>
          ((\<exists>r st'. out = Inr (r, st')) \<or> out = Inl ValueError)"
    using search_terminates [OF nogo_contract, of corner2] e by blast
  moreover have "empties (snd (play_move nogo_ops (sboard corner2) 5 BLACK)) < empties (sboard corner2)"
    using search_terminates [OF nogo_contract, of corner2] corner2_play
    by (metis prod.collapse)
  ultimately show ?thesis using nogo_contract corner2_play e by blast
qed


lemma won3_trail: "winning_moves won3 = []"
  by (simp add: won3_def)

lemma won3_start: "\<lparr>sboard = copy (board (conn_of eyes3)), winning_moves = [], tt = tt_clear\<rparr> = won3"
  by (simp add: won3_def conn_of_def copy_def)

lemma solve_keeps_live_board:
  "solve_cmd ops fuel expires args conn = Some (Inr (ret, conn')) \<Longrightarrow> board conn' = board conn"
  by (auto simp: solve_cmd_def Let_def respond_def split: if_splits sum.splits option.splits)




lemma j3_parses: "move_to_coord ''j3'' 9 = Inr (RC 3 9) \<and> tl ''j3'' = str_int 3"
  by code_simp




text \<open>
  C7. At the same position the top-level call made by \<open>solve_cmd\<close> returns \<open>True\<close>
  with an empty winning-move trail.
\<close>

theorem trail_empty_on_proven_win:
  "map_option (map_sum id (\<lambda>(r, st). (r, winning_moves st)))
     (boolean_negamax_tt nogo_ops (Suc 0)
        \<lparr>sboard = copy (board (conn_of eyes3)), winning_moves = [], tt = tt_clear\<rparr>)
   = Some (Inr (True, []))"
  unfolding won3_start won3_search [of 0] by (simp add: won3_trail)

text \<open>
  C4. There \<open>solve_cmd\<close> writes no response: the assertion on the trail fails after
  the search has proved the win.
\<close>

theorem solve_fails_on_proven_win:
  "solve_cmd nogo_ops (Suc 0) False [] (conn_of eyes3) = Some (Inl AssertionError)"
proof -
  have "boolean_negamax_tt nogo_ops (Suc 0)
          \<lparr>sboard = copy (board (conn_of eyes3)), winning_moves = [], tt = tt_clear\<rparr> =
        Some (Inr (True, won3\<lparr>tt := tt_store (tt won3) (hash_code nogo_ops (sboard won3)) True\<rparr>))"
    unfolding won3_start by (rule won3_search)
  then show ?thesis
    by (simp add: solve_cmd_def Let_def won3_trail del: boolean_negamax_tt.simps)
qed






text \<open>
  C5, as the code has it. For rows and columns from 1 to 24, \<open>format_point\<close>
  followed by \<open>move_to_coord\<close> on a board that holds the point gives the coordinate
  back. Conversely, a string that \<open>move_to_coord\<close> parses to such a coordinate, and
  whose row is written the way \<open>str\<close> writes it, is reproduced by \<open>format_point\<close>
  up to case.
\<close>

theorem notation_round_trip:
  "(1 \<le> r \<and> r \<le> 24 \<and> 1 \<le> c \<and> c \<le> 24 \<and> r \<le> n \<and> c \<le> n \<and> 2 \<le> n \<and> n \<le> 25 \<longrightarrow>
      (\<exists>s. format_point (RC r c) = Inr s \<and> move_to_coord s n = Inr (RC r c))) \<and>
   (move_to_coord s n = Inr (RC r c) \<and> r \<le> 24 \<and> c \<le> 24 \<and> tl s = str_int r \<longrightarrow>
      (\<exists>out. format_point (RC r c) = Inr out \<and> lower out = lower s))"
  using forward_round_trip [of r c n] backward_round_trip [of s n r c] by blast

theorem notation_round_trip_witness:
  "(1::int) \<le> 3 \<and> (3::int) \<le> 24 \<and> (1::int) \<le> 9 \<and> (9::int) \<le> 24 \<and> (3::int) \<le> 9 \<and>
   (9::int) \<le> 9 \<and> (2::int) \<le> 9 \<and> (9::int) \<le> 25 \<and>
   (\<exists>s. format_point (RC 3 9) = Inr s \<and> move_to_coord s 9 = Inr (RC 3 9)) \<and>
   move_to_coord ''j3'' 9 = Inr (RC 3 9) \<and> tl ''j3'' = str_int 3 \<and>
   (\<exists>out. format_point (RC 3 9) = Inr out \<and> lower out = lower ''j3'')"
proof -
  have n: "(1::int) \<le> 3 \<and> (3::int) \<le> 24 \<and> (1::int) \<le> 9 \<and> (9::int) \<le> 24 \<and> (3::int) \<le> 9 \<and>
    (9::int) \<le> 9 \<and> (2::int) \<le> 9 \<and> (9::int) \<le> 25" by simp
  have a: "\<exists>s. format_point (RC 3 9) = Inr s \<and> move_to_coord s 9 = Inr (RC 3 9)"
    using notation_round_trip [of 3 9 9] n by blast
  have b: "\<exists>out. format_point (RC 3 9) = Inr out \<and> lower out = lower ''j3''"
    using notation_round_trip [of 3 9 9 "''j3''"] j3_parses n by blast
  show ?thesis using n a b j3_parses by blast
qed

text \<open>
  A row written with a leading zero parses, and is not reproduced.
\<close>

theorem leading_zero_counterexample:
  "move_to_coord ''A01'' 25 = Inr (RC 1 1) \<and> format_point (RC 1 1) = Inr ''A1'' \<and>
   lower ''A1'' \<noteq> lower ''A01''"
  by code_simp

text \<open>
  C6. \<open>format_point\<close> raises \<open>ValueError\<close> on row 25 and on column 25, which lie
  within the ceiling of 25 and which \<open>move_to_coord\<close> and \<open>point_to_coord\<close>
  produce on a board of size 25.
\<close>

theorem format_point_rejects_ceiling:
  "move_to_coord ''Z25'' 25 = Inr (RC 25 25) \<and>
   point_to_coord (Some 675) 25 = RC 25 25 \<and>
   format_point (RC 25 25) = Inl ValueError \<and>
   format_point (RC 25 1) = Inl ValueError \<and>
   format_point (RC 1 25) = Inl ValueError"
  by code_simp

theorem format_point_rejects_ceiling_witness:
  "format_point (RC 25 25) = Inl ValueError \<and> move_to_coord ''Z25'' 25 = Inr (RC 25 25)"
  using format_point_rejects_ceiling by blast


lemma explore_moves_raises:
  assumes "explore search ops m st = Some (Inr (True, st2))"
    and "format_point (point_to_coord (Some m) (bsize (sboard st2))) = Inl e"
  shows "explore_moves search ops (m # ms) st = Some (Inl e)"
  using assms by simp

text \<open>
  C9. On a board of size 25 a proving move on row 25, such as the point 674 (y25), has
  no name: \<open>format_point\<close> raises \<open>ValueError\<close> on its coordinate, and by
  \<open>explore_moves_raises\<close> the search that has just proved the win with it ends by that
  exception instead of reaching a return statement.
\<close>

theorem proving_move_without_name:
  "point_to_coord (Some 674) 25 = RC 25 24 \<and>
   format_point (point_to_coord (Some 674) 25) = Inl ValueError"
  by code_simp

theorem proving_move_without_name_witness:
  "format_point (point_to_coord (Some 674) 25) = Inl ValueError"
  using proving_move_without_name by blast

end
